theory Spec2Isabelle
  imports Main "HOL-Library.Log_Nat" "HOL-Library.Multiset"
begin

section \<open>Python values: errors, strings, the random source\<close>

text \<open>
  The program is \<^verbatim>\<open>generate.py\<close>. Its three core functions are
  \<^verbatim>\<open>generate_password\<close>, \<^verbatim>\<open>generate_from_template\<close> and
  \<^verbatim>\<open>evaluate_password_strength\<close>, with the advisory check
  \<^verbatim>\<open>is_valid_template\<close>. An exception of the source is a value \<open>Inl e\<close> of the
  model, a normal return is \<open>Inr v\<close>.

  A Python \<^verbatim>\<open>str\<close> is a sequence of code points. The model uses \<^typ>\<open>string\<close>, whose
  characters are the code points below 256; the character predicates below are the ones
  of \<^verbatim>\<open>str\<close> on that range.
\<close>

datatype py_error = IndexError | ZeroDivisionError

definition ascii_uppercase :: string where
  "ascii_uppercase = ''ABCDEFGHIJKLMNOPQRSTUVWXYZ''"

definition ascii_lowercase :: string where
  "ascii_lowercase = ''abcdefghijklmnopqrstuvwxyz''"

definition digits :: string where
  "digits = ''0123456789''"

text \<open>
  The literal \<^verbatim>\<open>"!@#$%&_-?"\<close> is written four times in the source (the pool and the
  reserved draw of \<^verbatim>\<open>generate_password\<close>, the entries \<^verbatim>\<open>'S'\<close> and \<^verbatim>\<open>'X'\<close> of
  \<^verbatim>\<open>pattern_map\<close>), each time with the same characters; the first occurrence is bound
  to the local name \<^verbatim>\<open>allowed_specials\<close>.
\<close>

definition allowed_specials :: string where
  "allowed_specials = ''!@#$%&_-?''"

text \<open>
  The process-wide generator of module \<^verbatim>\<open>random\<close> is passed explicitly: a source of
  raw draws, read from position 0 and shifted by one at every draw. Nothing is assumed of
  the draws, so a statement proved for every source holds for every run of the program.
  \<^verbatim>\<open>_randbelow(n)\<close> and \<^verbatim>\<open>floor(random() * n)\<close> both give some index below \<open>n\<close>; the
  model takes the next raw draw modulo \<open>n\<close>, and every index below \<open>n\<close> is the outcome
  for some source.
\<close>

type_synonym rng = "nat \<Rightarrow> nat"

definition randbelow :: "nat \<Rightarrow> rng \<Rightarrow> nat \<times> rng" where
  "randbelow n g = (g 0 mod n, \<lambda>i. g (Suc i))"

text \<open>
  \<^verbatim>\<open>random.choices(population, k=k)\<close> is the list comprehension
  \<^verbatim>\<open>[population[floor(random() * n)] for i in repeat(None, k)]\<close>: the first element is
  drawn first, and indexing an empty population raises \<^verbatim>\<open>IndexError\<close> as soon as one
  element is asked for.
\<close>

fun draws :: "'a list \<Rightarrow> nat \<Rightarrow> rng \<Rightarrow> 'a list \<times> rng" where
  "draws population 0 g = ([], g)"
| "draws population (Suc k) g =
     (let (i, g1) = randbelow (length population) g;
          (cs, g2) = draws population k g1
      in (population ! i # cs, g2))"

definition choices :: "'a list \<Rightarrow> nat \<Rightarrow> rng \<Rightarrow> py_error + ('a list \<times> rng)" where
  "choices population k g =
     (if population = [] \<and> 0 < k then Inl IndexError else Inr (draws population k g))"

text \<open>
  \<^verbatim>\<open>random.choice(seq)\<close>:
  \<^verbatim>\<open>if not len(seq): raise IndexError(...)\<close>, then \<^verbatim>\<open>seq[self._randbelow(len(seq))]\<close>.
\<close>

definition choice :: "'a list \<Rightarrow> rng \<Rightarrow> py_error + ('a \<times> rng)" where
  "choice seq g =
     (if length seq = 0 then Inl IndexError
      else let (i, g1) = randbelow (length seq) g in Inr (seq ! i, g1))"

text \<open>
  \<^verbatim>\<open>random.shuffle(x)\<close>:
  \<^verbatim>\<open>for i in reversed(range(1, len(x))): j = randbelow(i + 1); x[i], x[j] = x[j], x[i]\<close>.
  \<open>shuffle_from i\<close> runs the loop from index \<open>i\<close> down to 1. The tuple on the right is
  read before either store, so both stores write values of the list before the exchange.
\<close>

fun shuffle_from :: "nat \<Rightarrow> 'a list \<Rightarrow> rng \<Rightarrow> 'a list \<times> rng" where
  "shuffle_from 0 x g = (x, g)"
| "shuffle_from (Suc i) x g =
     (let (j, g1) = randbelow (Suc i + 1) g
      in shuffle_from i (x[Suc i := x ! j, j := x ! Suc i]) g1)"

definition shuffle :: "'a list \<Rightarrow> rng \<Rightarrow> 'a list \<times> rng" where
  "shuffle x g = shuffle_from (length x - 1) x g"

section \<open>The composer: generate_password\<close>

text \<open>
  One statement \<^verbatim>\<open>if use_c: password.extend(random.choices(alphabet, k=k))\<close>, on the
  pair of the list built so far and the random source.
\<close>

definition reserve ::
  "bool \<Rightarrow> string \<Rightarrow> nat \<Rightarrow> string \<times> rng \<Rightarrow> py_error + (string \<times> rng)" where
  "reserve use_class alphabet k st =
     (case st of (password, g) \<Rightarrow>
        if use_class then
          (case choices alphabet k g of
             Inl e \<Rightarrow> Inl e
           | Inr (cs, g1) \<Rightarrow> Inr (password @ cs, g1))
        else Inr (password, g))"

text \<open>
  The pool of the fill, built by the four \<^verbatim>\<open>character_pool += ...\<close> statements and
  the fallback \<^verbatim>\<open>if not character_pool: character_pool = string.ascii_lowercase\<close>.
\<close>

definition character_pool :: "bool \<Rightarrow> bool \<Rightarrow> bool \<Rightarrow> bool \<Rightarrow> string" where
  "character_pool use_uppercase use_lowercase use_numbers use_special =
     (let pool = (if use_uppercase then ascii_uppercase else [])
               @ (if use_lowercase then ascii_lowercase else [])
               @ (if use_numbers then digits else [])
               @ (if use_special then allowed_specials else [])
      in if pool = [] then ascii_lowercase else pool)"

text \<open>
  \<^verbatim>\<open>generate_password(length, use_uppercase, use_lowercase, use_numbers, use_special)\<close>.
  The requested length is a Python integer, of any sign.
\<close>

definition generate_password ::
  "int \<Rightarrow> bool \<Rightarrow> bool \<Rightarrow> bool \<Rightarrow> bool \<Rightarrow> rng \<Rightarrow> py_error + (string \<times> rng)" where
  "generate_password length0 use_uppercase use_lowercase use_numbers use_special g =
     (let length1 = (if length0 < 12 then 12 else length0);
          pool = character_pool use_uppercase use_lowercase use_numbers use_special
      in case reserve use_special allowed_specials 2 ([], g) of
           Inl e \<Rightarrow> Inl e
         | Inr st1 \<Rightarrow>
        (case reserve use_uppercase ascii_uppercase 4 st1 of
           Inl e \<Rightarrow> Inl e
         | Inr st2 \<Rightarrow>
        (case reserve use_lowercase ascii_lowercase 4 st2 of
           Inl e \<Rightarrow> Inl e
         | Inr st3 \<Rightarrow>
        (case reserve use_numbers digits 2 st3 of
           Inl e \<Rightarrow> Inl e
         | Inr st4 \<Rightarrow>
        (let remaining_length = length1 - int (length (fst st4))
         in case reserve (0 < remaining_length) pool (nat remaining_length) st4 of
              Inl e \<Rightarrow> Inl e
            | Inr (password, g5) \<Rightarrow> Inr (shuffle password g5))))))"

section \<open>The composer: generate_from_template and is_valid_template\<close>

definition pattern_map :: "char \<rightharpoonup> string" where
  "pattern_map =
     [CHR ''U'' \<mapsto> ascii_uppercase,
      CHR ''L'' \<mapsto> ascii_lowercase,
      CHR ''D'' \<mapsto> digits,
      CHR ''S'' \<mapsto> allowed_specials,
      CHR ''X'' \<mapsto> ascii_uppercase @ ascii_lowercase @ digits @ allowed_specials]"

text \<open>The loop \<^verbatim>\<open>for char in template\<close>, with \<^verbatim>\<open>result\<close> as accumulator.\<close>

fun template_loop :: "string \<Rightarrow> string \<Rightarrow> rng \<Rightarrow> py_error + (string \<times> rng)" where
  "template_loop [] result g = Inr (result, g)"
| "template_loop (char # rest) result g =
     (case pattern_map char of
        Some alphabet \<Rightarrow>
          (case choice alphabet g of
             Inl e \<Rightarrow> Inl e
           | Inr (c, g1) \<Rightarrow> template_loop rest (result @ [c]) g1)
      | None \<Rightarrow> template_loop rest (result @ [char]) g)"

definition generate_from_template :: "string \<Rightarrow> rng \<Rightarrow> py_error + (string \<times> rng)" where
  "generate_from_template template g = template_loop template [] g"

text \<open>
  \<^verbatim>\<open>is_valid_template(template)\<close>. \<^verbatim>\<open>sum\<close> of a list of booleans counts the true
  ones; the subtraction is on Python integers.
\<close>

definition is_valid_template :: "string \<Rightarrow> bool" where
  "is_valid_template template =
     (if length template < 12 then False
      else
        let has_upper = (CHR ''U'' \<in> set template);
            has_lower = (CHR ''L'' \<in> set template);
            has_digit = (CHR ''D'' \<in> set template);
            has_special = (CHR ''S'' \<in> set template);
            x_count = int (count_list template (CHR ''X''));
            required_count =
              4 - sum_list (map of_bool [has_upper, has_lower, has_digit, has_special])
        in x_count \<ge> required_count)"

section \<open>The strength evaluator\<close>

subsection \<open>Character classes of str\<close>

text \<open>
  \<^verbatim>\<open>str.isupper\<close>, \<^verbatim>\<open>str.islower\<close> and \<^verbatim>\<open>str.isdigit\<close> on one character, for the
  code points below 256: the ASCII letters and digits, the cased letters of Latin-1
  (with the ordinal indicators and the micro sign lowercase), and the superscript digits.
\<close>

definition isupper :: "char \<Rightarrow> bool" where
  "isupper c =
     (let n = (of_char c :: nat)
      in (65 \<le> n \<and> n \<le> 90) \<or> (192 \<le> n \<and> n \<le> 214) \<or> (216 \<le> n \<and> n \<le> 222))"

definition islower :: "char \<Rightarrow> bool" where
  "islower c =
     (let n = (of_char c :: nat)
      in (97 \<le> n \<and> n \<le> 122) \<or> n = 170 \<or> n = 181 \<or> n = 186
         \<or> (223 \<le> n \<and> n \<le> 246) \<or> (248 \<le> n \<and> n \<le> 255))"

definition isdigit :: "char \<Rightarrow> bool" where
  "isdigit c =
     (let n = (of_char c :: nat)
      in (48 \<le> n \<and> n \<le> 57) \<or> n = 178 \<or> n = 179 \<or> n = 185)"

text \<open>The literal of the test \<^verbatim>\<open>c in "!@#$%^&*()_+-=[]{}|;:,.<>?/"\<close>.\<close>

definition special_characters :: string where
  "special_characters = ''!@#$%^&*()_+-=[]{}|;:,.<>?/''"

subsection \<open>Floating point\<close>

text \<open>
  \<^verbatim>\<open>unique_chars / length * 20\<close> is computed in binary64. A finite double is a rational
  number, and each operation returns the exact result rounded to 53 significant bits, to
  nearest, ties to even. \<open>fl\<close> is that rounding, with an unbounded exponent: the
  operands here are quotients of string lengths and small multiples of them, far from
  overflow and from the subnormal range.
\<close>

definition pow2 :: "int \<Rightarrow> rat" where
  "pow2 e = (if 0 \<le> e then 2 ^ nat e else 1 / 2 ^ nat (- e))"

definition round_half_even :: "rat \<Rightarrow> int" where
  "round_half_even y =
     (let m = \<lfloor>y\<rfloor>; r = y - of_int m
      in if 1 / 2 < r \<or> (r = 1 / 2 \<and> odd m) then m + 1 else m)"

text \<open>The exponent \<open>e\<close> of the last significant bit: \<open>2^52 \<le> |x| / 2^e < 2^53\<close>.\<close>

definition ulp_exponent :: "rat \<Rightarrow> int" where
  "ulp_exponent x =
     (let (p, q) = quotient_of \<bar>x\<bar>;
          d = bitlen p - bitlen q
      in (if pow2 d \<le> \<bar>x\<bar> then d else d - 1) - 52)"

definition fl :: "rat \<Rightarrow> rat" where
  "fl x =
     (if x = 0 then 0
      else let e = ulp_exponent x in of_int (round_half_even (x / pow2 e)) * pow2 e)"

text \<open>
  \<^verbatim>\<open>a / b\<close> on integers: \<^verbatim>\<open>ZeroDivisionError\<close> when \<open>b\<close> is 0, otherwise the
  correctly rounded quotient. \<^verbatim>\<open>x * 20\<close> on a float and an integer literal is the rounded
  product. \<^verbatim>\<open>int(x)\<close> truncates towards zero.
\<close>

definition truediv :: "int \<Rightarrow> int \<Rightarrow> py_error + rat" where
  "truediv a b =
     (if b = 0 then Inl ZeroDivisionError else Inr (fl (of_int a / of_int b)))"

definition float_mul :: "rat \<Rightarrow> rat \<Rightarrow> rat" where
  "float_mul x y = fl (x * y)"

definition py_int :: "rat \<Rightarrow> int" where
  "py_int x = (if 0 \<le> x then \<lfloor>x\<rfloor> else \<lceil>x\<rceil>)"

subsection \<open>evaluate_password_strength\<close>

text \<open>
  The three blocks of the function, in the order of the source. The length block gives
  its points and its feedback line.
\<close>

definition length_score :: "string \<Rightarrow> int \<times> string" where
  "length_score password =
     (let len = length password
      in if len \<ge> 16 then (40, ''Good length'')
         else if len \<ge> 12 then (30, ''Acceptable length'')
         else (15, ''Too short''))"

definition has_upper :: "string \<Rightarrow> bool" where
  "has_upper password = list_ex isupper password"

definition has_lower :: "string \<Rightarrow> bool" where
  "has_lower password = list_ex islower password"

definition has_digit :: "string \<Rightarrow> bool" where
  "has_digit password = list_ex isdigit password"

definition has_special :: "string \<Rightarrow> bool" where
  "has_special password = list_ex (\<lambda>c. c \<in> set special_characters) password"

definition char_types :: "string \<Rightarrow> int" where
  "char_types password =
     sum_list (map of_bool
       [has_upper password, has_lower password, has_digit password, has_special password])"

definition class_feedback :: "string \<Rightarrow> string list" where
  "class_feedback password =
     (if \<not> has_upper password then [''Add uppercase letters''] else [])
   @ (if \<not> has_lower password then [''Add lowercase letters''] else [])
   @ (if \<not> has_digit password then [''Add numbers''] else [])
   @ (if \<not> has_special password then [''Add special characters''] else [])"

definition unique_chars :: "string \<Rightarrow> int" where
  "unique_chars password = int (card (set password))"

text \<open>\<^verbatim>\<open>min(20, int(unique_chars / length * 20))\<close>: the division is not guarded.\<close>

definition diversity_score :: "string \<Rightarrow> py_error + int" where
  "diversity_score password =
     (case truediv (unique_chars password) (int (length password)) of
        Inl e \<Rightarrow> Inl e
      | Inr ratio \<Rightarrow> Inr (min 20 (py_int (float_mul ratio 20))))"

text \<open>
  \<^verbatim>\<open>unique_chars < length / 2\<close> compares an integer with a float by value; the divisor
  is the literal 2, so this division does not raise.
\<close>

definition variety_feedback :: "string \<Rightarrow> string list" where
  "variety_feedback password =
     (if of_int (unique_chars password) < fl (of_int (int (length password)) / 2)
      then [''Add more variety of characters''] else [])"

definition strength_of :: "int \<Rightarrow> string" where
  "strength_of score =
     (if score \<ge> 90 then ''Very Strong''
      else if score \<ge> 70 then ''Strong''
      else if score \<ge> 50 then ''Moderate''
      else if score \<ge> 30 then ''Weak''
      else ''Very Weak'')"

definition evaluate_password_strength ::
  "string \<Rightarrow> py_error + (int \<times> string \<times> string list)" where
  "evaluate_password_strength password =
     (let score = 0 + fst (length_score password);
          feedback = [] @ [snd (length_score password)];
          score = score + char_types password * 10;
          feedback = feedback @ class_feedback password
      in case diversity_score password of
           Inl e \<Rightarrow> Inl e
         | Inr d \<Rightarrow>
             (let score = score + d;
                  feedback = feedback @ variety_feedback password
              in Inr (score, strength_of score, feedback)))"

section \<open>Quantities the statements below are about\<close>

text \<open>The number of characters of a password that belong to an alphabet.\<close>

definition count_from :: "string \<Rightarrow> string \<Rightarrow> nat" where
  "count_from alphabet password = length (filter (\<lambda>c. c \<in> set alphabet) password)"

text \<open>
  The number of characters the four reserved draws of \<^verbatim>\<open>generate_password\<close> ask for:
  the constants \<^verbatim>\<open>k=2\<close>, \<^verbatim>\<open>k=4\<close>, \<^verbatim>\<open>k=4\<close>, \<^verbatim>\<open>k=2\<close> of the enabled classes.
\<close>

definition reserved_total :: "bool \<Rightarrow> bool \<Rightarrow> bool \<Rightarrow> bool \<Rightarrow> nat" where
  "reserved_total use_uppercase use_lowercase use_numbers use_special =
     (if use_special then 2 else 0) + (if use_uppercase then 4 else 0)
   + (if use_lowercase then 4 else 0) + (if use_numbers then 2 else 0)"

section \<open>The random source and the library functions\<close>

lemma randbelow_less: "0 < n \<Longrightarrow> fst (randbelow n g) < n"
  by (simp add: randbelow_def)

lemma draws_length: "length (fst (draws population k g)) = k"
  by (induction k arbitrary: g) (simp_all add: split_def Let_def)

lemma draws_subset: "population \<noteq> [] \<Longrightarrow> set (fst (draws population k g)) \<subseteq> set population"
proof (induction k arbitrary: g)
  case 0
  show ?case by simp
next
  case (Suc k)
  have "population ! fst (randbelow (length population) g) \<in> set population"
    using Suc.prems by (simp add: randbelow_less)
  with Suc show ?case by (simp add: split_def Let_def)
qed

lemma choices_Inr:
  assumes "population \<noteq> []"
  obtains cs g1 where "choices population k g = Inr (cs, g1)" "length cs = k"
    "set cs \<subseteq> set population"
proof -
  obtain cs g1 where d: "draws population k g = (cs, g1)" by (cases "draws population k g")
  have "length cs = k" using draws_length [of population k g] d by simp
  moreover have "set cs \<subseteq> set population" using draws_subset [OF assms, of k g] d by simp
  moreover have "choices population k g = Inr (cs, g1)" using assms d by (simp add: choices_def)
  ultimately show thesis using that by blast
qed

lemma reserve_Inr:
  assumes "alphabet \<noteq> []"
  obtains cs g1 where "reserve use_class alphabet k (password, g) = Inr (password @ cs, g1)"
    "length cs = (if use_class then k else 0)" "set cs \<subseteq> set alphabet"
proof (cases use_class)
  case True
  obtain cs g1 where "choices alphabet k g = Inr (cs, g1)" "length cs = k" "set cs \<subseteq> set alphabet"
    using assms by (rule choices_Inr)
  with True have "reserve use_class alphabet k (password, g) = Inr (password @ cs, g1)"
    "length cs = (if use_class then k else 0)" "set cs \<subseteq> set alphabet"
    by (simp_all add: reserve_def)
  then show thesis by (rule that)
next
  case False
  then have "reserve use_class alphabet k (password, g) = Inr (password @ [], g)"
    "length ([]::string) = (if use_class then k else 0)" "set ([]::string) \<subseteq> set alphabet"
    by (simp_all add: reserve_def)
  then show thesis by (rule that)
qed

lemma shuffle_from_mset:
  "i < length x \<Longrightarrow> mset (fst (shuffle_from i x g)) = mset x"
proof (induction i arbitrary: x g)
  case 0
  show ?case by simp
next
  case (Suc i)
  let ?j = "fst (randbelow (Suc i + 1) g)"
  let ?x' = "x[Suc i := x ! ?j, ?j := x ! Suc i]"
  have j: "?j < length x" using randbelow_less [of "Suc i + 1" g] Suc.prems by simp
  have "mset ?x' = mset x" using j Suc.prems by (rule mset_swap)
  moreover have "i < length ?x'" using Suc.prems by simp
  ultimately show ?case using Suc.IH [of ?x' "snd (randbelow (Suc i + 1) g)"]
    by (simp add: split_def Let_def)
qed

lemma shuffle_mset: "mset (fst (shuffle x g)) = mset x"
proof (cases x)
  case Nil
  then show ?thesis by (simp add: shuffle_def)
next
  case (Cons a as)
  then show ?thesis by (simp add: shuffle_def shuffle_from_mset)
qed

lemma character_pool_nonempty: "character_pool uu ul un us \<noteq> []"
  by (simp add: character_pool_def Let_def ascii_uppercase_def ascii_lowercase_def digits_def
      allowed_specials_def)

lemma alphabets_nonempty:
  "ascii_uppercase \<noteq> []" "ascii_lowercase \<noteq> []" "digits \<noteq> []" "allowed_specials \<noteq> []"
  by (simp_all add: ascii_uppercase_def ascii_lowercase_def digits_def allowed_specials_def)

lemma generate_password_shape:
  obtains sp up lo di fill password g1 where
    "generate_password n uu ul un us g = Inr (password, g1)"
    "mset password = mset (sp @ up @ lo @ di @ fill)"
    "length sp = (if us then 2 else 0)" "set sp \<subseteq> set allowed_specials"
    "length up = (if uu then 4 else 0)" "set up \<subseteq> set ascii_uppercase"
    "length lo = (if ul then 4 else 0)" "set lo \<subseteq> set ascii_lowercase"
    "length di = (if un then 2 else 0)" "set di \<subseteq> set digits"
    "int (length (sp @ up @ lo @ di @ fill)) = max n 12"
    "set fill \<subseteq> set (character_pool uu ul un us)"
proof -
  obtain sp g1 where 1: "reserve us allowed_specials 2 ([], g) = Inr ([] @ sp, g1)"
    "length sp = (if us then 2 else 0)" "set sp \<subseteq> set allowed_specials"
    using alphabets_nonempty(4) by (rule reserve_Inr)
  obtain up g2 where 2: "reserve uu ascii_uppercase 4 (sp, g1) = Inr (sp @ up, g2)"
    "length up = (if uu then 4 else 0)" "set up \<subseteq> set ascii_uppercase"
    using alphabets_nonempty(1) by (rule reserve_Inr)
  obtain lo g3 where 3: "reserve ul ascii_lowercase 4 (sp @ up, g2) = Inr ((sp @ up) @ lo, g3)"
    "length lo = (if ul then 4 else 0)" "set lo \<subseteq> set ascii_lowercase"
    using alphabets_nonempty(2) by (rule reserve_Inr)
  obtain di g4 where 4: "reserve un digits 2 ((sp @ up) @ lo, g3) = Inr (((sp @ up) @ lo) @ di, g4)"
    "length di = (if un then 2 else 0)" "set di \<subseteq> set digits"
    using alphabets_nonempty(3) by (rule reserve_Inr)
  let ?res = "((sp @ up) @ lo) @ di"
  let ?len = "if n < 12 then 12 else n"
  let ?rem = "?len - int (length ?res)"
  let ?pool = "character_pool uu ul un us"
  obtain fill g5 where 5: "reserve (0 < ?rem) ?pool (nat ?rem) (?res, g4) = Inr (?res @ fill, g5)"
    "length fill = (if 0 < ?rem then nat ?rem else 0)" "set fill \<subseteq> set ?pool"
    using character_pool_nonempty by (rule reserve_Inr)
  obtain password g6 where 6: "shuffle (?res @ fill) g5 = (password, g6)"
    by (cases "shuffle (?res @ fill) g5")
  have gen: "generate_password n uu ul un us g = Inr (password, g6)"
    using 1(1) 2(1) 3(1) 4(1) 5(1) 6 by (simp add: generate_password_def Let_def)
  have ms: "mset password = mset (sp @ up @ lo @ di @ fill)"
    using shuffle_mset [of "?res @ fill" g5] 6 by simp
  have "length ?res \<le> 12" using 1(2) 2(2) 3(2) 4(2) by simp
  then have len: "int (length (sp @ up @ lo @ di @ fill)) = max n 12"
    using 5(2) by (simp split: if_splits)
  show thesis
    using gen ms 1(2,3) 2(2,3) 3(2,3) 4(2,3) len 5(3) by (rule that)
qed

lemma count_from_mset: "mset xs = mset ys \<Longrightarrow> count_from a xs = count_from a ys"
proof -
  assume "mset xs = mset ys"
  then have "mset (filter (\<lambda>c. c \<in> set a) xs) = mset (filter (\<lambda>c. c \<in> set a) ys)"
    by simp
  then show ?thesis unfolding count_from_def by (rule mset_eq_length)
qed

lemma count_from_append: "count_from a (xs @ ys) = count_from a xs + count_from a ys"
  by (simp add: count_from_def)

lemma count_from_all: "set xs \<subseteq> set a \<Longrightarrow> count_from a xs = length xs"
  unfolding count_from_def by (induction xs) auto

section \<open>Properties of generate_password\<close>

text \<open>
  Claim C2. Every call of \<^verbatim>\<open>generate_password\<close> returns a password, and for each
  enabled class the password holds at least the reserved number of characters of that
  class's alphabet: 2 of \<^verbatim>\<open>!@#$%&_-?\<close> when special is enabled, 4 uppercase letters
  when uppercase is enabled, 4 lowercase letters when lowercase is enabled, 2 digits when
  numbers are enabled. This holds for every requested length and every random source.
\<close>

theorem generate_password_reserved_minimums:
  "\<exists>password g1. generate_password n uu ul un us g = Inr (password, g1)
     \<and> (us \<longrightarrow> 2 \<le> count_from allowed_specials password)
     \<and> (uu \<longrightarrow> 4 \<le> count_from ascii_uppercase password)
     \<and> (ul \<longrightarrow> 4 \<le> count_from ascii_lowercase password)
     \<and> (un \<longrightarrow> 2 \<le> count_from digits password)"
proof -
  obtain sp up lo di fill password g1 where
    gen: "generate_password n uu ul un us g = Inr (password, g1)" and
    ms: "mset password = mset (sp @ up @ lo @ di @ fill)" and
    sp: "length sp = (if us then 2 else 0)" "set sp \<subseteq> set allowed_specials" and
    up: "length up = (if uu then 4 else 0)" "set up \<subseteq> set ascii_uppercase" and
    lo: "length lo = (if ul then 4 else 0)" "set lo \<subseteq> set ascii_lowercase" and
    di: "length di = (if un then 2 else 0)" "set di \<subseteq> set digits"
    by (rule generate_password_shape)
  have cnt: "count_from a password
      = count_from a sp + count_from a up + count_from a lo + count_from a di + count_from a fill"
    for a using count_from_mset [OF ms, of a] by (simp add: count_from_append)
  have "2 \<le> count_from allowed_specials password" if us
    using that sp count_from_all [OF sp(2)] cnt [of allowed_specials] by simp
  moreover have "4 \<le> count_from ascii_uppercase password" if uu
    using that up count_from_all [OF up(2)] cnt [of ascii_uppercase] by simp
  moreover have "4 \<le> count_from ascii_lowercase password" if ul
    using that lo count_from_all [OF lo(2)] cnt [of ascii_lowercase] by simp
  moreover have "2 \<le> count_from digits password" if un
    using that di count_from_all [OF di(2)] cnt [of digits] by simp
  ultimately show ?thesis using gen by blast
qed

theorem generate_password_reserved_minimums_witness:
  "\<exists>password g1. generate_password 16 True True True True (\<lambda>_. 0) = Inr (password, g1)
     \<and> 2 \<le> count_from allowed_specials password
     \<and> 4 \<le> count_from ascii_uppercase password
     \<and> 4 \<le> count_from ascii_lowercase password
     \<and> 2 \<le> count_from digits password"
  using generate_password_reserved_minimums [of 16 True True True True "\<lambda>_. 0"] by simp

text \<open>
  Claim C3. For every requested length (below 12, zero and negative included), every
  choice of classes and every random source, \<^verbatim>\<open>generate_password\<close> returns a password
  of length at least 12.
\<close>

theorem generate_password_length_ge_12:
  "\<exists>password g1. generate_password n uu ul un us g = Inr (password, g1)
     \<and> 12 \<le> length password"
proof -
  obtain sp up lo di fill password g1 where
    gen: "generate_password n uu ul un us g = Inr (password, g1)" and
    ms: "mset password = mset (sp @ up @ lo @ di @ fill)" and
    len: "int (length (sp @ up @ lo @ di @ fill)) = max n 12"
    by (rule generate_password_shape)
  have "length password = length (sp @ up @ lo @ di @ fill)"
    using ms by (rule mset_eq_length)
  with len have "12 \<le> length password" by linarith
  with gen show ?thesis by blast
qed

text \<open>
  Claim C10. The length of the password returned by \<^verbatim>\<open>generate_password\<close> is exactly
  the maximum of the requested length and 12. The password is a rearrangement of the
  reserved characters followed by the fill; the reserved characters are at most 12, so
  the number of fill characters, the floored length minus the reserved count, is never
  negative and the password is never longer than the floored length.
\<close>

theorem generate_password_length_exact:
  "\<exists>password g1 reserved fill.
     generate_password n uu ul un us g = Inr (password, g1)
     \<and> int (length password) = max n 12
     \<and> mset password = mset (reserved @ fill)
     \<and> length reserved = reserved_total uu ul un us
     \<and> reserved_total uu ul un us \<le> 12
     \<and> 0 \<le> max n 12 - int (reserved_total uu ul un us)
     \<and> int (length fill) = max n 12 - int (reserved_total uu ul un us)"
proof -
  obtain sp up lo di fill password g1 where
    gen: "generate_password n uu ul un us g = Inr (password, g1)" and
    ms: "mset password = mset (sp @ up @ lo @ di @ fill)" and
    sp: "length sp = (if us then 2 else 0)" and
    up: "length up = (if uu then 4 else 0)" and
    lo: "length lo = (if ul then 4 else 0)" and
    di: "length di = (if un then 2 else 0)" and
    len: "int (length (sp @ up @ lo @ di @ fill)) = max n 12"
    by (rule generate_password_shape)
  let ?reserved = "sp @ up @ lo @ di"
  have r: "length ?reserved = reserved_total uu ul un us"
    using sp up lo di by (simp add: reserved_total_def)
  have b: "reserved_total uu ul un us \<le> 12" by (simp add: reserved_total_def)
  have "length password = length (sp @ up @ lo @ di @ fill)"
    using ms by (rule mset_eq_length)
  with len have l: "int (length password) = max n 12" by simp
  have f: "int (length fill) = max n 12 - int (reserved_total uu ul un us)"
    using len r by simp
  have nn: "0 \<le> max n 12 - int (reserved_total uu ul un us)" using b by linarith
  have "mset password = mset (?reserved @ fill)" using ms by simp
  with gen l r b nn f show ?thesis by blast
qed

text \<open>
  With the four classes disabled no reserved character is drawn, and the password is the
  shuffle of the fill alone.
\<close>

lemma generate_password_all_disabled_eq:
  "generate_password n False False False False g =
     (case draws ascii_lowercase (nat (max n 12)) g of (cs, g1) \<Rightarrow> Inr (shuffle cs g1))"
proof -
  have pool: "character_pool False False False False = ascii_lowercase"
    by (simp add: character_pool_def)
  have m: "(if n < 12 then 12 else n) = max n 12" by simp
  show ?thesis
    unfolding generate_password_def Let_def pool
    by (simp add: reserve_def choices_def alphabets_nonempty m split: prod.splits)
qed

text \<open>
  Claim C4. \<^verbatim>\<open>generate_password\<close> returns a password on every input, it never raises.
  With the four classes disabled the pool is the lowercase alphabet alone, and the
  function returns the shuffle of \<open>max n 12\<close> draws from that pool: the password is a
  rearrangement of these draws, it consists of lowercase ASCII letters only, its length
  is the maximum of the requested length and 12, and it is not empty.
\<close>

theorem generate_password_all_disabled_lowercase:
  "(\<exists>password g1. generate_password n uu ul un us g = Inr (password, g1))
   \<and> character_pool False False False False = ascii_lowercase
   \<and> generate_password n False False False False g =
        (case draws (character_pool False False False False) (nat (max n 12)) g of
           (cs, g1) \<Rightarrow> Inr (shuffle cs g1))
   \<and> (\<exists>password g1. generate_password n False False False False g = Inr (password, g1)
         \<and> mset password
             = mset (fst (draws (character_pool False False False False) (nat (max n 12)) g))
         \<and> set password \<subseteq> set ascii_lowercase
         \<and> int (length password) = max n 12
         \<and> password \<noteq> [])"
proof -
  have total: "\<exists>password g1. generate_password n uu ul un us g = Inr (password, g1)"
    by (rule generate_password_shape [of n uu ul un us g]) blast
  have pool: "character_pool False False False False = ascii_lowercase"
    by (simp add: character_pool_def)
  let ?k = "nat (max n 12)"
  obtain cs g1 where d: "draws ascii_lowercase ?k g = (cs, g1)"
    by (cases "draws ascii_lowercase ?k g")
  obtain password g2 where s: "shuffle cs g1 = (password, g2)"
    by (cases "shuffle cs g1")
  have eq: "generate_password n False False False False g =
      (case draws ascii_lowercase ?k g of (cs, g1) \<Rightarrow> Inr (shuffle cs g1))"
    by (rule generate_password_all_disabled_eq)
  then have gen: "generate_password n False False False False g = Inr (password, g2)"
    using d s by simp
  have ms: "mset password = mset cs" using shuffle_mset [of cs g1] s by simp
  have lcs: "length cs = ?k" using draws_length [of ascii_lowercase ?k g] d by simp
  have scs: "set cs \<subseteq> set ascii_lowercase"
    using draws_subset [OF alphabets_nonempty(2), of ?k g] d by simp
  have "set password = set cs" using ms by (rule mset_eq_setD)
  with scs have sub: "set password \<subseteq> set ascii_lowercase" by simp
  have "length password = length cs" using ms by (rule mset_eq_length)
  with lcs have len: "int (length password) = max n 12" by linarith
  then have ne: "password \<noteq> []" by auto
  have ms': "mset password = mset (fst (draws ascii_lowercase ?k g))" using ms d by simp
  from total pool eq gen ms' sub len ne show ?thesis unfolding pool by blast
qed

section \<open>Properties of generate_from_template and is_valid_template\<close>

lemma pattern_map_nonempty: "pattern_map c = Some alphabet \<Longrightarrow> alphabet \<noteq> []"
  by (auto simp: pattern_map_def alphabets_nonempty split: if_splits)

lemma pattern_map_None:
  "c \<notin> {CHR ''U'', CHR ''L'', CHR ''D'', CHR ''S'', CHR ''X''} \<Longrightarrow> pattern_map c = None"
  by (simp add: pattern_map_def)

lemma choice_Inr:
  assumes "seq \<noteq> []"
  obtains c g1 where "choice seq g = Inr (c, g1)" "c \<in> set seq"
proof -
  let ?r = "randbelow (length seq) g"
  have "fst ?r < length seq" using assms by (simp add: randbelow_less)
  then have "seq ! fst ?r \<in> set seq" by simp
  moreover have "choice seq g = Inr (seq ! fst ?r, snd ?r)"
    using assms by (simp add: choice_def split_def Let_def)
  ultimately show thesis using that by blast
qed

lemma template_loop_length:
  "\<exists>password g1. template_loop template result g = Inr (password, g1)
     \<and> length password = length result + length template"
proof (induction template arbitrary: result g)
  case Nil
  show ?case by simp
next
  case (Cons char rest)
  show ?case
  proof (cases "pattern_map char")
    case None
    with Cons.IH [of "result @ [char]" g] show ?thesis by simp
  next
    case (Some alphabet)
    then have "alphabet \<noteq> []" by (rule pattern_map_nonempty)
    then obtain c g1 where "choice alphabet g = Inr (c, g1)" by (rule choice_Inr)
    with Some Cons.IH [of "result @ [c]" g1] show ?thesis by simp
  qed
qed

lemma template_loop_literals:
  "set template \<inter> {CHR ''U'', CHR ''L'', CHR ''D'', CHR ''S'', CHR ''X''} = {}
     \<Longrightarrow> template_loop template result g = Inr (result @ template, g)"
proof (induction template arbitrary: result)
  case Nil
  show ?case by simp
next
  case (Cons char rest)
  from Cons.prems have "char \<notin> {CHR ''U'', CHR ''L'', CHR ''D'', CHR ''S'', CHR ''X''}"
    and rest: "set rest \<inter> {CHR ''U'', CHR ''L'', CHR ''D'', CHR ''S'', CHR ''X''} = {}"
    by auto
  then have "pattern_map char = None" by (simp add: pattern_map_None)
  with Cons.IH [OF rest, of "result @ [char]"] show ?case by simp
qed

text \<open>
  Claim C5. For every template and every random source \<^verbatim>\<open>generate_from_template\<close>
  returns a password as long as the template; for the template \<^verbatim>\<open>UULLDDSS\<close> the
  password has length 8.
\<close>

theorem generate_from_template_length:
  "(\<exists>password g1. generate_from_template template g = Inr (password, g1)
       \<and> length password = length template)
   \<and> (\<exists>password g1. generate_from_template ''UULLDDSS'' g = Inr (password, g1)
       \<and> length password = 8)"
proof -
  have len: "\<exists>password g1. generate_from_template t g = Inr (password, g1)
      \<and> length password = length t" for t
    using template_loop_length [of t "[]" g] by (simp only: generate_from_template_def list.size add_0)
  have "length ''UULLDDSS'' = 8" by simp
  with len [of template] len [of "''UULLDDSS''"] show ?thesis by (simp only:) 
qed

text \<open>
  Claim C9. On a template with none of the directive characters U, L, D, S, X,
  \<^verbatim>\<open>generate_from_template\<close> returns the template unchanged and draws nothing from the
  random source; so it does on \<^verbatim>\<open>ABC-123\<close>.
\<close>

theorem generate_from_template_literals:
  "(set template \<inter> {CHR ''U'', CHR ''L'', CHR ''D'', CHR ''S'', CHR ''X''} = {}
      \<longrightarrow> generate_from_template template g = Inr (template, g))
   \<and> generate_from_template ''ABC-123'' g = Inr (''ABC-123'', g)"
proof -
  have lit: "generate_from_template t g = Inr (t, g)"
    if "set t \<inter> {CHR ''U'', CHR ''L'', CHR ''D'', CHR ''S'', CHR ''X''} = {}" for t
    using template_loop_literals [OF that, of "[]" g]
    by (simp only: generate_from_template_def append_Nil)
  have "set ''ABC-123'' \<inter> {CHR ''U'', CHR ''L'', CHR ''D'', CHR ''S'', CHR ''X''} = {}"
    by simp
  then have "generate_from_template ''ABC-123'' g = Inr (''ABC-123'', g)" by (rule lit)
  with lit [of template] show ?thesis by blast
qed

theorem generate_from_template_literals_witness:
  "set ''ABC-123'' \<inter> {CHR ''U'', CHR ''L'', CHR ''D'', CHR ''S'', CHR ''X''} = {}
   \<and> generate_from_template ''ABC-123'' (\<lambda>_. 0) = Inr (''ABC-123'', \<lambda>_. 0)"
  using generate_from_template_literals [of "''ABC-123''" "\<lambda>_. 0"] by simp

lemma present_classes:
  "sum_list (map of_bool [CHR ''U'' \<in> set t, CHR ''L'' \<in> set t, CHR ''D'' \<in> set t, CHR ''S'' \<in> set t])
     = int (card (set t \<inter> {CHR ''U'', CHR ''L'', CHR ''D'', CHR ''S''}))"
proof -
  have "set t \<inter> {CHR ''U'', CHR ''L'', CHR ''D'', CHR ''S''}
      = (if CHR ''U'' \<in> set t then {CHR ''U''} else {})
      \<union> (if CHR ''L'' \<in> set t then {CHR ''L''} else {})
      \<union> (if CHR ''D'' \<in> set t then {CHR ''D''} else {})
      \<union> (if CHR ''S'' \<in> set t then {CHR ''S''} else {})"
    by auto
  then show ?thesis by simp
qed

text \<open>
  Claim C6. \<^verbatim>\<open>is_valid_template\<close> is false on a template shorter than 12. On a longer
  one it is true exactly when the number of \<^verbatim>\<open>X\<close> is at least 4 minus the number of
  distinct classes among U, L, D, S that occur in the template. It is false on
  \<^verbatim>\<open>UUUU\<close>, and true on every template of length 12 in which U, L, D and S all occur.
\<close>

theorem is_valid_template_characterisation:
  "(length t < 12 \<longrightarrow> \<not> is_valid_template t)
   \<and> (12 \<le> length t \<longrightarrow>
        (is_valid_template t \<longleftrightarrow>
           4 - int (card (set t \<inter> {CHR ''U'', CHR ''L'', CHR ''D'', CHR ''S''}))
             \<le> int (count_list t (CHR ''X''))))
   \<and> \<not> is_valid_template ''UUUU''
   \<and> (length t = 12 \<and> {CHR ''U'', CHR ''L'', CHR ''D'', CHR ''S''} \<subseteq> set t
        \<longrightarrow> is_valid_template t)"
proof -
  have a: "\<not> is_valid_template t" if "length t < 12"
    using that by (simp add: is_valid_template_def)
  have b: "is_valid_template t \<longleftrightarrow>
      4 - int (card (set t \<inter> {CHR ''U'', CHR ''L'', CHR ''D'', CHR ''S''}))
        \<le> int (count_list t (CHR ''X''))" if "12 \<le> length t"
    using that present_classes [of t]
    by (simp only: is_valid_template_def Let_def) simp
  have c: "\<not> is_valid_template ''UUUU''" by (simp add: is_valid_template_def)
  have d: "is_valid_template t"
    if "length t = 12 \<and> {CHR ''U'', CHR ''L'', CHR ''D'', CHR ''S''} \<subseteq> set t"
    using that by (simp add: is_valid_template_def)
  from a b c d show ?thesis by blast
qed

theorem is_valid_template_characterisation_witness:
  "length ''UUUU'' < 12 \<and> \<not> is_valid_template ''UUUU''
   \<and> length ''UULLDDSS-XYZ'' = 12
   \<and> {CHR ''U'', CHR ''L'', CHR ''D'', CHR ''S''} \<subseteq> set ''UULLDDSS-XYZ''
   \<and> is_valid_template ''UULLDDSS-XYZ''
   \<and> 4 - int (card (set ''UULLDDSS-XYZ'' \<inter> {CHR ''U'', CHR ''L'', CHR ''D'', CHR ''S''}))
        \<le> int (count_list ''UULLDDSS-XYZ'' (CHR ''X''))"
  using is_valid_template_characterisation [of "''UUUU''"]
    is_valid_template_characterisation [of "''UULLDDSS-XYZ''"]
  by simp

section \<open>Properties of the strength evaluator\<close>

text \<open>
  Two values of the rounding, as binary64 has them: the double nearest to 1/12, and its
  product with 20, which is 1.6666666666666665.
\<close>

lemma fl_one_twelfth: "fl (1 / 12) = 6004799503160661 / 2 ^ 56"
  by code_simp

lemma fl_product: "float_mul (6004799503160661 / 2 ^ 56) 20 = 3752999689475413 / 2 ^ 51"
  by code_simp

lemma length_score_a12: "length_score ''aaaaaaaaaaaa'' = (30, ''Acceptable length'')"
  by (simp add: length_score_def)

lemma classes_a12:
  "\<not> has_upper ''aaaaaaaaaaaa''" "has_lower ''aaaaaaaaaaaa''"
  "\<not> has_digit ''aaaaaaaaaaaa''" "\<not> has_special ''aaaaaaaaaaaa''"
  by (simp_all add: has_upper_def has_lower_def has_digit_def has_special_def
      isupper_def islower_def isdigit_def special_characters_def)

lemma unique_chars_a12: "unique_chars ''aaaaaaaaaaaa'' = 1"
  by (simp add: unique_chars_def)

lemma diversity_score_a12: "diversity_score ''aaaaaaaaaaaa'' = Inr 1"
  by code_simp

lemma variety_feedback_a12:
  "variety_feedback ''aaaaaaaaaaaa'' = [''Add more variety of characters'']"
  by code_simp

text \<open>
  Claim C7. On twelve letters \<^verbatim>\<open>a\<close> the length block gives 30 points, the class block
  10 points (one class, lowercase), the diversity block 1 point; the function returns the
  score 41, the label \<^verbatim>\<open>Weak\<close>, and a feedback list that holds
  \<^verbatim>\<open>Add uppercase letters\<close>, \<^verbatim>\<open>Add numbers\<close>, \<^verbatim>\<open>Add special characters\<close> and
  \<^verbatim>\<open>Add more variety of characters\<close>.
\<close>

theorem evaluate_twelve_a:
  "fst (length_score ''aaaaaaaaaaaa'') = 30
   \<and> char_types ''aaaaaaaaaaaa'' * 10 = 10
   \<and> diversity_score ''aaaaaaaaaaaa'' = Inr 1
   \<and> evaluate_password_strength ''aaaaaaaaaaaa''
       = Inr (41, ''Weak'',
              [''Acceptable length'', ''Add uppercase letters'', ''Add numbers'',
               ''Add special characters'', ''Add more variety of characters''])"
proof -
  have c: "char_types ''aaaaaaaaaaaa'' = 1"
    by (simp add: char_types_def classes_a12)
  have f: "class_feedback ''aaaaaaaaaaaa''
      = [''Add uppercase letters'', ''Add numbers'', ''Add special characters'']"
    by (simp add: class_feedback_def classes_a12)
  have "evaluate_password_strength ''aaaaaaaaaaaa''
       = Inr (41, ''Weak'',
              [''Acceptable length'', ''Add uppercase letters'', ''Add numbers'',
               ''Add special characters'', ''Add more variety of characters''])"
    unfolding evaluate_password_strength_def Let_def length_score_a12 c f
      diversity_score_a12 variety_feedback_a12
    by (simp add: strength_of_def)
  then show ?thesis by (simp add: length_score_a12 c diversity_score_a12)
qed

text \<open>
  Claim C1 says that the empty string is guarded and scores 15. The source has no such
  guard: on the empty string the length block gives 15 points and the class block none,
  and then \<^verbatim>\<open>unique_chars / length\<close> divides by zero, so the function raises
  \<^verbatim>\<open>ZeroDivisionError\<close> and returns no score.
\<close>

theorem evaluate_empty_raises:
  "fst (length_score '''') = 15
   \<and> char_types '''' = 0
   \<and> diversity_score '''' = Inl ZeroDivisionError
   \<and> evaluate_password_strength '''' = Inl ZeroDivisionError"
proof -
  have l: "fst (length_score '''') = 15" by (simp add: length_score_def)
  have c: "char_types '''' = 0"
    by (simp add: char_types_def has_upper_def has_lower_def has_digit_def has_special_def)
  have d: "diversity_score '''' = Inl ZeroDivisionError"
    by (simp add: diversity_score_def truediv_def)
  have "evaluate_password_strength '''' = Inl ZeroDivisionError"
    by (simp add: evaluate_password_strength_def d)
  with l c d show ?thesis by (simp only:)
qed

section \<open>The two special alphabets\<close>

text \<open>
  Claim C8. The special alphabet of the composer is \<^verbatim>\<open>!@#$%&_-?\<close>, nine distinct
  symbols, and it is what directive \<^verbatim>\<open>S\<close> draws from. It is a proper subset of the
  characters the evaluator takes as special; the evaluator's other special characters are
  those of \<^verbatim>\<open>^*()+=[]{}|;:,.<>/\<close>, and a password has a special character for the
  evaluator exactly when it holds a character of one of the two lists.
\<close>

theorem special_alphabets:
  "allowed_specials = ''!@#$%&_-?''
   \<and> distinct allowed_specials \<and> length allowed_specials = 9
   \<and> pattern_map (CHR ''S'') = Some allowed_specials
   \<and> set allowed_specials \<subset> set special_characters
   \<and> set special_characters - set allowed_specials = set ''^*()+=[]{}|;:,.<>/''
   \<and> (has_special password \<longleftrightarrow>
        set password \<inter> (set allowed_specials \<union> set ''^*()+=[]{}|;:,.<>/'') \<noteq> {})"
proof -
  have "set special_characters \<subseteq> set allowed_specials \<union> set ''^*()+=[]{}|;:,.<>/''"
    by (simp add: special_characters_def allowed_specials_def)
  moreover
  have "set allowed_specials \<union> set ''^*()+=[]{}|;:,.<>/'' \<subseteq> set special_characters"
    by (simp add: special_characters_def allowed_specials_def)
  ultimately
  have u: "set special_characters = set allowed_specials \<union> set ''^*()+=[]{}|;:,.<>/''"
    by (rule equalityI)
  have d: "set allowed_specials \<inter> set ''^*()+=[]{}|;:,.<>/'' = {}"
    by (simp add: allowed_specials_def)
  have n: "CHR ''^'' \<in> set ''^*()+=[]{}|;:,.<>/''" by simp
  have 1: "allowed_specials = ''!@#$%&_-?''" by (simp add: allowed_specials_def)
  have 2: "distinct allowed_specials \<and> length allowed_specials = 9"
    by (simp add: allowed_specials_def)
  have 3: "pattern_map (CHR ''S'') = Some allowed_specials" by (simp add: pattern_map_def)
  have 4: "set allowed_specials \<subset> set special_characters" using u d n by blast
  have 5: "set special_characters - set allowed_specials = set ''^*()+=[]{}|;:,.<>/''"
    using u d by blast
  have 6: "has_special password \<longleftrightarrow>
        set password \<inter> (set allowed_specials \<union> set ''^*()+=[]{}|;:,.<>/'') \<noteq> {}"
    unfolding has_special_def list_ex_iff u by blast
  from 1 2 3 4 5 6 show ?thesis by (simp only:) 
qed

end
